theory Spec2Isabelle
  imports Main "HOL-Library.Word"
begin

unbundle bit_operations_syntax

section \<open>Library functions called by main.go\<close>

text \<open>
  main.go is glue around the Go standard library (strings, math/big, encoding/hex, fmt)
  and go-ethereum's common package. Those functions are not part of the repository;
  each is modelled here after its library implementation, on byte strings
  (a Go string is a byte sequence, an Isabelle \<open>string\<close> is a \<open>char list\<close> of bytes).
\<close>

type_synonym byte = "8 word"

definition ord :: "char \<Rightarrow> nat" where
  "ord c = of_char c"

subsection \<open>strings\<close>

text \<open>The line feed and a run of tabs, for the string literals of main.go.\<close>

definition nl :: string where
  "nl = [CHR 0x0A]"

definition tabs :: "nat \<Rightarrow> string" where
  "tabs n = replicate n (CHR 0x09)"

text \<open>strings.HasPrefix: \<^verbatim>\<open>len(s) >= len(prefix) && s[:len(prefix)] == prefix\<close>.\<close>

definition HasPrefix :: "string \<Rightarrow> string \<Rightarrow> bool" where
  "HasPrefix s p = (length p \<le> length s \<and> take (length p) s = p)"

text \<open>strings.Split with a one-byte separator: the pieces between the separators,
  one more than there are separators.\<close>

fun Split :: "string \<Rightarrow> char \<Rightarrow> string list" where
  "Split [] sep = [[]]"
| "Split (c # cs) sep =
     (if c = sep then [] # Split cs sep
      else (case Split cs sep of
              [] \<Rightarrow> [[c]]
            | t # ts \<Rightarrow> (c # t) # ts))"

text \<open>
  strings.TrimSpace removes leading and trailing white space as unicode.IsSpace defines
  it, on the UTF-8 encoding: the ASCII bytes tab, line feed, vertical tab, form feed,
  carriage return and space, and the encodings of U+0085, U+00A0, U+1680,
  U+2000..U+200A, U+2028, U+2029, U+202F, U+205F and U+3000.
\<close>

definition space_encodings :: "string list" where
  "space_encodings =
     [[CHR 0x09], [CHR 0x0A], [CHR 0x0B], [CHR 0x0C], [CHR 0x0D], [CHR 0x20],
      [CHR 0xC2, CHR 0x85], [CHR 0xC2, CHR 0xA0],
      [CHR 0xE1, CHR 0x9A, CHR 0x80],
      [CHR 0xE2, CHR 0x80, CHR 0x80], [CHR 0xE2, CHR 0x80, CHR 0x81],
      [CHR 0xE2, CHR 0x80, CHR 0x82], [CHR 0xE2, CHR 0x80, CHR 0x83],
      [CHR 0xE2, CHR 0x80, CHR 0x84], [CHR 0xE2, CHR 0x80, CHR 0x85],
      [CHR 0xE2, CHR 0x80, CHR 0x86], [CHR 0xE2, CHR 0x80, CHR 0x87],
      [CHR 0xE2, CHR 0x80, CHR 0x88], [CHR 0xE2, CHR 0x80, CHR 0x89],
      [CHR 0xE2, CHR 0x80, CHR 0x8A],
      [CHR 0xE2, CHR 0x80, CHR 0xA8], [CHR 0xE2, CHR 0x80, CHR 0xA9],
      [CHR 0xE2, CHR 0x80, CHR 0xAF], [CHR 0xE2, CHR 0x81, CHR 0x9F],
      [CHR 0xE3, CHR 0x80, CHR 0x80]]"

definition leading_space :: "string \<Rightarrow> nat" where
  "leading_space s =
     (case find (\<lambda>w. HasPrefix s w) space_encodings of
        None \<Rightarrow> 0
      | Some w \<Rightarrow> length w)"

function TrimLeft :: "string \<Rightarrow> string" where
  "TrimLeft s =
     (if leading_space s = 0 \<or> s = [] then s
      else TrimLeft (drop (leading_space s) s))"
  by pat_completeness auto
termination
  by (relation "measure length") auto

declare TrimLeft.simps [simp del]

text \<open>The trailing side reads the last rune; a string ends with a white-space rune
  exactly when it ends with that rune's encoding.\<close>

definition HasSuffix :: "string \<Rightarrow> string \<Rightarrow> bool" where
  "HasSuffix s p = (length p \<le> length s \<and> drop (length s - length p) s = p)"

definition trailing_space :: "string \<Rightarrow> nat" where
  "trailing_space s =
     (case find (\<lambda>w. HasSuffix s w) space_encodings of
        None \<Rightarrow> 0
      | Some w \<Rightarrow> length w)"

function TrimRight :: "string \<Rightarrow> string" where
  "TrimRight s =
     (if trailing_space s = 0 \<or> s = [] then s
      else TrimRight (take (length s - trailing_space s) s))"
  by pat_completeness auto
termination
  by (relation "measure length") auto

declare TrimRight.simps [simp del]

definition TrimSpace :: "string \<Rightarrow> string" where
  "TrimSpace s = TrimRight (TrimLeft s)"

subsection \<open>go-ethereum common: hex addresses\<close>

text \<open>has0xPrefix: \<^verbatim>\<open>len(str) >= 2 && str[0] == '0' && (str[1] == 'x' || str[1] == 'X')\<close>.\<close>

fun has0xPrefix :: "string \<Rightarrow> bool" where
  "has0xPrefix (c0 # c1 # _) = (c0 = CHR ''0'' \<and> (c1 = CHR ''x'' \<or> c1 = CHR ''X''))"
| "has0xPrefix _ = False"

definition isHexCharacter :: "char \<Rightarrow> bool" where
  "isHexCharacter c =
     ((ord CHR ''0'' \<le> ord c \<and> ord c \<le> ord CHR ''9'') \<or>
      (ord CHR ''a'' \<le> ord c \<and> ord c \<le> ord CHR ''f'') \<or>
      (ord CHR ''A'' \<le> ord c \<and> ord c \<le> ord CHR ''F''))"

text \<open>isHex: an even number of bytes, each a hexadecimal character.\<close>

fun all_hex :: "string \<Rightarrow> bool" where
  "all_hex [] = True"
| "all_hex (c # cs) = (if \<not> isHexCharacter c then False else all_hex cs)"

definition isHex :: "string \<Rightarrow> bool" where
  "isHex str = (if length str mod 2 \<noteq> 0 then False else all_hex str)"

definition AddressLength :: nat where
  "AddressLength = 20"

definition IsHexAddress :: "string \<Rightarrow> bool" where
  "IsHexAddress s =
     (let s' = (if has0xPrefix s then drop 2 s else s)
      in length s' = 2 * AddressLength \<and> isHex s')"

text \<open>encoding/hex: reverseHexTable maps a hexadecimal character to its value and every
  other byte to 0xff; Decode stops at the first invalid byte and DecodeString returns
  what was decoded before it (Hex2Bytes drops the error).\<close>

definition reverseHexTable :: "char \<Rightarrow> byte" where
  "reverseHexTable c =
     (if ord CHR ''0'' \<le> ord c \<and> ord c \<le> ord CHR ''9'' then of_nat (ord c - ord CHR ''0'')
      else if ord CHR ''a'' \<le> ord c \<and> ord c \<le> ord CHR ''f'' then of_nat (ord c - ord CHR ''a'' + 10)
      else if ord CHR ''A'' \<le> ord c \<and> ord c \<le> ord CHR ''F'' then of_nat (ord c - ord CHR ''A'' + 10)
      else 0xff)"

fun Hex2Bytes :: "string \<Rightarrow> byte list" where
  "Hex2Bytes (p # q # rest) =
     (let a = reverseHexTable p; b = reverseHexTable q
      in if a > 0x0f then []
         else if b > 0x0f then []
         else (push_bit 4 a OR b) # Hex2Bytes rest)"
| "Hex2Bytes _ = []"

definition FromHex :: "string \<Rightarrow> byte list" where
  "FromHex s =
     (let s1 = (if has0xPrefix s then drop 2 s else s);
          s2 = (if length s1 mod 2 = 1 then CHR ''0'' # s1 else s1)
      in Hex2Bytes s2)"

text \<open>BytesToAddress: longer inputs are cropped from the left, shorter ones are
  right-aligned in the 20 zero bytes.\<close>

definition BytesToAddress :: "byte list \<Rightarrow> byte list" where
  "BytesToAddress b =
     (let b' = (if length b > AddressLength then drop (length b - AddressLength) b else b)
      in replicate (AddressLength - length b') 0 @ b')"

definition HexToAddress :: "string \<Rightarrow> byte list" where
  "HexToAddress s = BytesToAddress (FromHex s)"

subsection \<open>math/big: Int.SetString\<close>

text \<open>
  nat.scan reads digits while they are below the base: \<open>0..9\<close>, then \<open>a..z\<close> and
  \<open>A..Z\<close> as 10..35 (bases up to 36), any other byte ends the number. It counts the
  digits read. Int.scan reads one optional sign first; SetString fails when that first
  read hits the end of the input, when no digit was read, or when input is left over.
\<close>

definition MaxBase :: nat where
  "MaxBase = 62"

definition digitVal :: "char \<Rightarrow> nat" where
  "digitVal ch =
     (if ord CHR ''0'' \<le> ord ch \<and> ord ch \<le> ord CHR ''9'' then ord ch - ord CHR ''0''
      else if ord CHR ''a'' \<le> ord ch \<and> ord ch \<le> ord CHR ''z'' then ord ch - ord CHR ''a'' + 10
      else if ord CHR ''A'' \<le> ord ch \<and> ord ch \<le> ord CHR ''Z'' then ord ch - ord CHR ''A'' + 10
      else MaxBase + 1)"

fun scan_digits :: "nat \<Rightarrow> string \<Rightarrow> nat \<Rightarrow> nat \<Rightarrow> nat \<times> nat \<times> string" where
  "scan_digits b [] z count = (z, count, [])"
| "scan_digits b (ch # r) z count =
     (if digitVal ch \<ge> b then (z, count, ch # r)
      else scan_digits b r (z * b + digitVal ch) (count + 1))"

definition SetString :: "string \<Rightarrow> nat \<Rightarrow> int option" where
  "SetString s base =
     (case s of
        [] \<Rightarrow> None
      | ch # r \<Rightarrow>
          (let neg = (ch = CHR ''-'');
               r' = (if ch = CHR ''-'' \<or> ch = CHR ''+'' then r else s)
           in case scan_digits base r' 0 0 of
                (z, count, rest) \<Rightarrow>
                  if count = 0 then None
                  else if rest \<noteq> [] then None
                  else Some (if neg then - int z else int z)))"

section \<open>main.go: preparing the function arguments\<close>

text \<open>A typed argument is a common.Address (20 bytes), a *big.Int or a string.\<close>

datatype arg = ArgAddress "byte list" | ArgBigInt int | ArgString string

text \<open>log.Fatalf prints its message and ends the process with status 1.\<close>

datatype fatal = Fatal string

text \<open>The body of the loop over argsList, for the trimmed token. \<^verbatim>\<open>arg[2:]\<close> is
  in range because the token starts with \<^verbatim>\<open>0x\<close>.\<close>

definition coerce_arg :: "string \<Rightarrow> fatal + arg" where
  "coerce_arg arg =
     (if IsHexAddress arg then Inr (ArgAddress (HexToAddress arg))
      else if HasPrefix arg ''0x'' then
        (case SetString (drop 2 arg) 16 of
           None \<Rightarrow> Inl (Fatal (''Failed to parse hex argument: '' @ arg))
         | Some bigInt \<Rightarrow> Inr (ArgBigInt bigInt))
      else
        (case SetString arg 10 of
           Some bigInt \<Rightarrow> Inr (ArgBigInt bigInt)
         | None \<Rightarrow> Inr (ArgString arg)))"

fun coerce_loop :: "string list \<Rightarrow> arg list \<Rightarrow> fatal + arg list" where
  "coerce_loop [] functionArgs = Inr functionArgs"
| "coerce_loop (a # argsList) functionArgs =
     (case coerce_arg (TrimSpace a) of
        Inl e \<Rightarrow> Inl e
      | Inr v \<Rightarrow> coerce_loop argsList (functionArgs @ [v]))"

definition prepare_args :: "string \<Rightarrow> fatal + arg list" where
  "prepare_args argsStr =
     (if argsStr \<noteq> [] then coerce_loop (Split argsStr CHR '','') [] else Inr [])"


section \<open>main.go: displaying the results\<close>

text \<open>
  A decoded return value, by its runtime type: *big.Int, string, []byte, common.Address,
  bool, or a value of any other type, which is kept as its \<^verbatim>\<open>%v\<close> rendering and
  its \<^verbatim>\<open>%T\<close> type name. A *big.Int is a number: the ABI decoder allocates every
  integer it returns, so the pointer is never nil.
\<close>

datatype result =
    RBigInt int
  | RString string
  | RBytes "byte list"
  | RAddress "byte list"
  | RBool bool
  | ROther string string

text \<open>The run-time panics of the Go operations the formatter uses.\<close>

datatype panic = IndexOutOfRange | SliceOutOfRange | DivisionByZero

text \<open>\<^verbatim>\<open>s[i]\<close> and \<^verbatim>\<open>s[:n]\<close> on a string, with Go's bounds checks.\<close>

definition index :: "string \<Rightarrow> int \<Rightarrow> panic + char" where
  "index s i = (if 0 \<le> i \<and> i < int (length s) then Inr (s ! nat i) else Inl IndexOutOfRange)"

definition slice_to :: "string \<Rightarrow> int \<Rightarrow> panic + string" where
  "slice_to s n = (if 0 \<le> n \<and> n \<le> int (length s) then Inr (take (nat n) s) else Inl SliceOutOfRange)"

subsection \<open>math/big and fmt\<close>

text \<open>Int.String and the verb \<^verbatim>\<open>%d\<close>: decimal digits, most significant first,
  with a minus sign for a negative number.\<close>

definition digit_char :: "nat \<Rightarrow> char" where
  "digit_char d = ''0123456789abcdef'' ! d"

fun nat_String :: "nat \<Rightarrow> string" where
  "nat_String n =
     (if n < 10 then [digit_char n]
      else nat_String (n div 10) @ [digit_char (n mod 10)])"

declare nat_String.simps [simp del]

definition big_String :: "int \<Rightarrow> string" where
  "big_String x = (if x < 0 then CHR ''-'' # nat_String (nat (- x)) else nat_String (nat x))"

text \<open>The loop index is an \<^verbatim>\<open>int\<close> below the length of a slice.\<close>

definition fmt_d :: "nat \<Rightarrow> string" where
  "fmt_d i = nat_String i"

text \<open>The verb \<^verbatim>\<open>%x\<close> on a byte slice: two lower-case hexadecimal digits a byte.\<close>

fun fmt_x :: "byte list \<Rightarrow> string" where
  "fmt_x [] = []"
| "fmt_x (b # bs) = digit_char (unat b div 16) # digit_char (unat b mod 16) # fmt_x bs"

text \<open>Int.Cmp gives -1, 0 or +1. Int.Div and Int.Mod are Euclidean (the modulus is never
  negative) and panic on a zero divisor.\<close>

definition big_Cmp :: "int \<Rightarrow> int \<Rightarrow> int" where
  "big_Cmp x y = (if x < y then - 1 else if x = y then 0 else 1)"

definition big_Div :: "int \<Rightarrow> int \<Rightarrow> panic + int" where
  "big_Div x y =
     (if y = 0 then Inl DivisionByZero
      else if 0 < y then Inr (x div y)
      else Inr (- (x div (- y))))"

definition big_Mod :: "int \<Rightarrow> int \<Rightarrow> panic + int" where
  "big_Mod x y = (if y = 0 then Inl DivisionByZero else Inr (x mod \<bar>y\<bar>))"

subsection \<open>The loop over the results\<close>

text \<open>\<^verbatim>\<open>exp18 := big.NewInt(10); exp18.Exp(exp18, big.NewInt(18), nil)\<close>\<close>

definition exp18 :: int where
  "exp18 = 10 ^ 18"

text \<open>\<^verbatim>\<open>for len(fracStr) < 18 { fracStr = "0" + fracStr }\<close>\<close>

function pad_zeros :: "string \<Rightarrow> string" where
  "pad_zeros fracStr =
     (if length fracStr < 18 then pad_zeros (''0'' @ fracStr) else fracStr)"
  by pat_completeness auto
termination
  by (relation "measure (\<lambda>fracStr. 18 - length fracStr)") auto

declare pad_zeros.simps [simp del]

text \<open>\<^verbatim>\<open>for len(fracStr) > 0 && fracStr[len(fracStr)-1] == '0' { fracStr = fracStr[:len(fracStr)-1] }\<close>\<close>

function trim_zeros :: "string \<Rightarrow> panic + string" where
  "trim_zeros fracStr =
     (if int (length fracStr) > 0 then
        (case index fracStr (int (length fracStr) - 1) of
           Inl p \<Rightarrow> Inl p
         | Inr c \<Rightarrow>
             if c = CHR ''0'' then
               (case slice_to fracStr (int (length fracStr) - 1) of
                  Inl p \<Rightarrow> Inl p
                | Inr fracStr' \<Rightarrow> trim_zeros fracStr')
             else Inr fracStr)
      else Inr fracStr)"
  by pat_completeness auto
termination
  by (relation "measure length") (auto simp: slice_to_def neq_Nil_conv split: if_splits)

declare trim_zeros.simps [simp del]

text \<open>What the body of \<^verbatim>\<open>if *convertPtr && v.Cmp(big.NewInt(0)) > 0\<close> prints.\<close>

definition rescale :: "int \<Rightarrow> panic + string" where
  "rescale v =
     (case big_Div v exp18 of
        Inl p \<Rightarrow> Inl p
      | Inr intPart \<Rightarrow>
          (case big_Mod v exp18 of
             Inl p \<Rightarrow> Inl p
           | Inr fracPart \<Rightarrow>
               (case trim_zeros (pad_zeros (big_String fracPart)) of
                  Inl p \<Rightarrow> Inl p
                | Inr fracStr \<Rightarrow>
                    if length fracStr > 0 then
                      Inr (''           = '' @ big_String intPart @ ''.'' @ fracStr @
                           '' (decimal)'' @ nl)
                    else
                      Inr (''           = '' @ big_String intPart @ '' (decimal)'' @ nl))))"

text \<open>The type switch. Address.Hex, the checksummed rendering of an address, is a
  parameter: it needs Keccak-256, which the program takes from go-ethereum.\<close>

definition format_result :: "bool \<Rightarrow> (byte list \<Rightarrow> string) \<Rightarrow> result \<Rightarrow> panic + string" where
  "format_result convert Hex result =
     (case result of
        RBigInt v \<Rightarrow>
          if convert \<and> big_Cmp v 0 > 0 then
            (case rescale v of
               Inl p \<Rightarrow> Inl p
             | Inr line \<Rightarrow> Inr (big_String v @ '' (big.Int)'' @ nl @ line))
          else Inr (big_String v @ '' (big.Int)'' @ nl)
      | RString v \<Rightarrow> Inr (v @ '' (string)'' @ nl)
      | RBytes v \<Rightarrow> Inr (''0x'' @ fmt_x v @ '' (bytes)'' @ nl)
      | RAddress v \<Rightarrow> Inr (Hex v @ '' (address)'' @ nl)
      | RBool v \<Rightarrow> Inr ((if v then ''true'' else ''false'') @ '' (bool)'' @ nl)
      | ROther v t \<Rightarrow> Inr (v @ '' (type: '' @ t @ '')'' @ nl))"

text \<open>\<^verbatim>\<open>for i, result := range results\<close>, with the text written to standard output
  so far.\<close>

fun print_results ::
  "bool \<Rightarrow> (byte list \<Rightarrow> string) \<Rightarrow> nat \<Rightarrow> result list \<Rightarrow> string \<Rightarrow> panic + string" where
  "print_results convert Hex i [] out = Inr out"
| "print_results convert Hex i (result # results) out =
     (case format_result convert Hex result of
        Inl p \<Rightarrow> Inl p
      | Inr txt \<Rightarrow>
          print_results convert Hex (i + 1) results
            (out @ ''Result['' @ fmt_d i @ '']: '' @ txt))"

section \<open>main.go: the ABI and the start of main\<close>

text \<open>Simple ERC20 token ABI with basic view functions.\<close>

definition ERC20ABI :: string where
  \<open>ERC20ABI =
     ''['' @ nl @
     tabs 2 @ ''{"constant":true,"inputs":[],"name":"name","outputs":[{"name":"","type":"string"}],"type":"function"},'' @ nl @
     tabs 2 @ ''{"constant":true,"inputs":[],"name":"symbol","outputs":[{"name":"","type":"string"}],"type":"function"},'' @ nl @
     tabs 2 @ ''{"constant":true,"inputs":[],"name":"decimals","outputs":[{"name":"","type":"uint8"}],"type":"function"},'' @ nl @
     tabs 2 @ ''{"constant":true,"inputs":[],"name":"totalSupply","outputs":[{"name":"","type":"uint256"}],"type":"function"},'' @ nl @
     tabs 2 @ ''{"constant":true,"inputs":[{"name":"_owner","type":"address"}],"name":"balanceOf","outputs":[{"name":"balance","type":"uint256"}],"type":"function"}'' @ nl @
     tabs 1 @ '']''\<close>

text \<open>Simple storage contract ABI.\<close>

definition SimpleStorageABI :: string where
  \<open>SimpleStorageABI =
     ''['' @ nl @
     tabs 2 @ ''{'' @ nl @
     tabs 3 @ ''"inputs": [],'' @ nl @
     tabs 3 @ ''"name": "retrieve",'' @ nl @
     tabs 3 @ ''"outputs": [{"internalType": "uint256", "name": "", "type": "uint256"}],'' @ nl @
     tabs 3 @ ''"stateMutability": "view",'' @ nl @
     tabs 3 @ ''"type": "function"'' @ nl @
     tabs 2 @ ''},'' @ nl @
     tabs 2 @ ''{'' @ nl @
     tabs 3 @ ''"inputs": [{"internalType": "uint256", "name": "num", "type": "uint256"}],'' @ nl @
     tabs 3 @ ''"name": "store",'' @ nl @
     tabs 3 @ ''"outputs": [],'' @ nl @
     tabs 3 @ ''"stateMutability": "nonpayable",'' @ nl @
     tabs 3 @ ''"type": "function"'' @ nl @
     tabs 2 @ ''}'' @ nl @
     tabs 1 @ '']''\<close>

text \<open>Generic fallback ABI for just function name calls (without knowing the full ABI).\<close>

definition GenericFallbackABI :: string where
  \<open>GenericFallbackABI =
     ''['' @ nl @
     tabs 2 @ ''{'' @ nl @
     tabs 3 @ ''"inputs": [],'' @ nl @
     tabs 3 @ ''"name": "FUNCTION_PLACEHOLDER",'' @ nl @
     tabs 3 @ ''"outputs": [{"internalType": "uint256", "name": "", "type": "uint256"}],'' @ nl @
     tabs 3 @ ''"stateMutability": "view",'' @ nl @
     tabs 3 @ ''"type": "function"'' @ nl @
     tabs 2 @ ''}'' @ nl @
     tabs 1 @ '']''\<close>

text \<open>strings.Replace with \<open>n = 1\<close>: the first occurrence of \<open>old\<close> is replaced.\<close>

fun Replace1 :: "string \<Rightarrow> string \<Rightarrow> string \<Rightarrow> string" where
  "Replace1 [] old new = (if old = [] then new else [])"
| "Replace1 (c # cs) old new =
     (if HasPrefix (c # cs) old then new @ drop (length old) (c # cs)
      else c # Replace1 cs old new)"

definition getContractABI :: "string \<Rightarrow> string" where
  "getContractABI contractType =
     (if contractType = ''erc20'' then ERC20ABI
      else if contractType = ''storage'' then SimpleStorageABI
      else GenericFallbackABI)"

text \<open>The command-line flags after flag.Parse; a flag that is not given has its default.\<close>

record flags =
  contractAddrPtr :: string
  functionNamePtr :: string
  rpcURLPtr :: string
  contractTypePtr :: string
  abiFilePtr :: string
  argsPtr :: string
  convertPtr :: bool
  helpPtr :: bool

text \<open>The branch of main that runs when no ABI file is given.\<close>

definition predefined_abi :: "flags \<Rightarrow> string" where
  "predefined_abi f =
     (let abiString = getContractABI (contractTypePtr f)
      in if contractTypePtr f = ''generic'' \<or> contractTypePtr f = []
         then Replace1 abiString ''FUNCTION_PLACEHOLDER'' (functionNamePtr f)
         else abiString)"

text \<open>os.ReadFile is a parameter: it gives the file's contents or an error text.\<close>

definition get_abi :: "(string \<Rightarrow> string + string) \<Rightarrow> flags \<Rightarrow> fatal + string" where
  "get_abi ReadFile f =
     (if abiFilePtr f \<noteq> [] then
        (case ReadFile (abiFilePtr f) of
           Inl err \<Rightarrow> Inl (Fatal (''Failed to read ABI file: '' @ err))
         | Inr abiData \<Rightarrow> Inr abiData)
      else Inr (predefined_abi f))"



section \<open>The specification's notions\<close>

text \<open>
  The specification speaks of well-formed hex addresses, of base-10 and base-16
  integers and of a number rendered with exactly 18 digits. These definitions say
  what the words mean, independently of how the code decides them.
\<close>

text \<open>The value of a digit is its place in the alphabet of digits, in either case;
  a character that is no digit gets 36.\<close>

definition position :: "string \<Rightarrow> char \<Rightarrow> nat" where
  "position alphabet c = length (takeWhile (\<lambda>d. d \<noteq> c) alphabet)"

definition digit_of :: "char \<Rightarrow> nat" where
  "digit_of c = min (position ''0123456789abcdefghijklmnopqrstuvwxyz'' c)
                    (position ''0123456789ABCDEFGHIJKLMNOPQRSTUVWXYZ'' c)"

text \<open>Positional notation, most significant digit first.\<close>

definition numeral_value :: "nat \<Rightarrow> string \<Rightarrow> nat" where
  "numeral_value b ds = horner_sum digit_of b (rev ds)"

text \<open>An integer in base \<open>b\<close>: an optional sign, then one or more digits of that base.\<close>

definition integer_literal :: "nat \<Rightarrow> string \<Rightarrow> int option" where
  "integer_literal b tok =
     (let ds = (if take 1 tok = ''-'' \<or> take 1 tok = ''+'' then drop 1 tok else tok)
      in if ds \<noteq> [] \<and> list_all (\<lambda>c. digit_of c < b) ds
         then Some (if take 1 tok = ''-'' then - int (numeral_value b ds)
                    else int (numeral_value b ds))
         else None)"

text \<open>A well-formed 20-byte hex address: an optional \<^verbatim>\<open>0x\<close> or \<^verbatim>\<open>0X\<close>, then
  exactly 40 hexadecimal digits of either case. Its canonical form is the 20 bytes the
  pairs of digits denote.\<close>

definition strip_0x :: "string \<Rightarrow> string" where
  "strip_0x tok = (if take 2 tok = ''0x'' \<or> take 2 tok = ''0X'' then drop 2 tok else tok)"

definition wellformed_hex_address :: "string \<Rightarrow> bool" where
  "wellformed_hex_address tok =
     (length (strip_0x tok) = 40 \<and> list_all (\<lambda>c. digit_of c < 16) (strip_0x tok))"

fun hex_pairs :: "string \<Rightarrow> byte list" where
  "hex_pairs (p # q # rest) = of_nat (16 * digit_of p + digit_of q) # hex_pairs rest"
| "hex_pairs _ = []"

definition canonical_address :: "string \<Rightarrow> byte list" where
  "canonical_address tok = hex_pairs (strip_0x tok)"

text \<open>The token shape that ends the process: a \<^verbatim>\<open>0x\<close> prefix on something that
  is neither an address nor a base-16 integer.\<close>

definition malformed_hex :: "string \<Rightarrow> bool" where
  "malformed_hex tok =
     (HasPrefix tok ''0x'' \<and> \<not> wellformed_hex_address tok \<and>
      integer_literal 16 (drop 2 tok) = None)"

text \<open>The comma-split, trimmed tokens of the raw argument string that are not empty.\<close>

definition nonempty_tokens :: "string \<Rightarrow> string list" where
  "nonempty_tokens argsStr =
     filter (\<lambda>t. t \<noteq> []) (map TrimSpace (Split argsStr CHR '',''))"

text \<open>A number written with exactly \<open>k\<close> decimal digits, leading zeros included, and a
  digit string without its trailing zeros.\<close>

fun fixed_digits :: "nat \<Rightarrow> nat \<Rightarrow> string" where
  "fixed_digits 0 n = []"
| "fixed_digits (Suc k) n = fixed_digits k (n div 10) @ [digit_char (n mod 10)]"

definition strip_trailing_zeros :: "string \<Rightarrow> string" where
  "strip_trailing_zeros s = rev (dropWhile (\<lambda>c. c = CHR ''0'') (rev s))"

definition fraction_digits :: "int \<Rightarrow> string" where
  "fraction_digits v = strip_trailing_zeros (fixed_digits 18 (nat (v mod 10 ^ 18)))"

text \<open>The generic fallback fragment with a function name in the place of the
  placeholder: one function of that name, without inputs, with the single output
  \<^verbatim>\<open>uint256\<close> and the mutability \<^verbatim>\<open>view\<close>.\<close>

definition fallback_fragment :: "string \<Rightarrow> string" where
  \<open>fallback_fragment name =
     ''['' @ nl @
     tabs 2 @ ''{'' @ nl @
     tabs 3 @ ''"inputs": [],'' @ nl @
     tabs 3 @ ''"name": "'' @ name @ ''",'' @ nl @
     tabs 3 @ ''"outputs": [{"internalType": "uint256", "name": "", "type": "uint256"}],'' @ nl @
     tabs 3 @ ''"stateMutability": "view",'' @ nl @
     tabs 3 @ ''"type": "function"'' @ nl @
     tabs 2 @ ''}'' @ nl @
     tabs 1 @ '']''\<close>

section \<open>The library functions meet the specification's notions\<close>

lemma char_digit_facts:
  "digitVal c = (if digit_of c < 36 then digit_of c else 63) \<and>
   (isHexCharacter c \<longleftrightarrow> digit_of c < 16) \<and>
   reverseHexTable c = (if digit_of c < 16 then of_nat (digit_of c) else 0xff)"
proof (cases c)
  case (Char b0 b1 b2 b3 b4 b5 b6 b7)
  show ?thesis unfolding Char
    by (cases b0; cases b1; cases b2; cases b3; cases b4; cases b5; cases b6; cases b7;
        simp add: digitVal_def isHexCharacter_def reverseHexTable_def digit_of_def
          position_def ord_def MaxBase_def)
qed

lemma digitVal_digit_of: "digitVal c = (if digit_of c < 36 then digit_of c else 63)"
  by (simp add: char_digit_facts)

lemma isHexCharacter_digit: "isHexCharacter c \<longleftrightarrow> digit_of c < 16"
  by (simp add: char_digit_facts)

lemma reverseHexTable_digit: "digit_of c < 16 \<Longrightarrow> reverseHexTable c = of_nat (digit_of c)"
  by (simp add: char_digit_facts)

lemma digitVal_less_iff: "b \<le> 36 \<Longrightarrow> digitVal c < b \<longleftrightarrow> digit_of c < b"
  by (simp add: digitVal_digit_of)

lemma digitVal_eq: "digit_of c < 36 \<Longrightarrow> digitVal c = digit_of c"
  by (simp add: digitVal_digit_of)

lemma scan_digits_all:
  "list_all (\<lambda>c. digitVal c < b) s \<Longrightarrow>
   scan_digits b s z n = (z * b ^ length s + horner_sum digitVal b (rev s), n + length s, [])"
proof (induction s arbitrary: z n)
  case Nil
  then show ?case by simp
next
  case (Cons c s)
  then show ?case by (simp add: horner_sum_append algebra_simps)
qed

lemma scan_digits_rest:
  "\<not> list_all (\<lambda>c. digitVal c < b) s \<Longrightarrow> snd (snd (scan_digits b s z n)) \<noteq> []"
  by (induction s arbitrary: z n) auto

lemma horner_sum_digits:
  "list_all (\<lambda>c. digit_of c < 36) ds \<Longrightarrow> horner_sum digitVal b ds = horner_sum digit_of b ds"
  by (induction ds) (simp_all add: digitVal_eq)

lemma scan_digits_ok:
  assumes "b \<le> 36" "list_all (\<lambda>c. digit_of c < b) ds"
  shows "scan_digits b ds 0 0 = (numeral_value b ds, length ds, [])"
proof -
  have d: "list_all (\<lambda>c. digitVal c < b) ds"
    using assms by (simp add: digitVal_less_iff)
  from assms have "list_all (\<lambda>c. digit_of c < 36) (rev ds)"
    by (auto simp: list_all_iff)
  then have "horner_sum digitVal b (rev ds) = horner_sum digit_of b (rev ds)"
    by (rule horner_sum_digits)
  then show ?thesis
    by (simp add: scan_digits_all [OF d] numeral_value_def)
qed

lemma scan_digits_bad:
  assumes "b \<le> 36" "\<not> list_all (\<lambda>c. digit_of c < b) ds"
  shows "snd (snd (scan_digits b ds 0 0)) \<noteq> []"
proof -
  have "\<not> list_all (\<lambda>c. digitVal c < b) ds"
    using assms by (simp add: digitVal_less_iff)
  then show ?thesis by (rule scan_digits_rest)
qed

lemma scan_result:
  assumes "b \<le> 36"
  shows "(case scan_digits b ds 0 0 of
            (z, count, rest) \<Rightarrow>
              if count = 0 then None else if rest \<noteq> [] then None else Some (f z))
         = (if ds \<noteq> [] \<and> list_all (\<lambda>c. digit_of c < b) ds
            then Some (f (numeral_value b ds)) else None)"
proof (cases "list_all (\<lambda>c. digit_of c < b) ds")
  case True
  then show ?thesis by (simp add: scan_digits_ok [OF assms])
next
  case False
  with scan_digits_bad [OF assms False] show ?thesis
    by (auto split: prod.splits)
qed

lemma SetString_literal:
  assumes "b \<le> 36"
  shows "SetString s b = integer_literal b s"
proof (cases s)
  case Nil
  then show ?thesis by (simp add: SetString_def integer_literal_def)
next
  case (Cons ch r)
  consider "ch = CHR ''-''" | "ch = CHR ''+''" | "ch \<noteq> CHR ''-''" "ch \<noteq> CHR ''+''"
    by blast
  then show ?thesis
  proof cases
    case 1
    with Cons show ?thesis
      by (simp add: SetString_def integer_literal_def Let_def scan_result [OF assms])
  next
    case 2
    with Cons show ?thesis
      by (simp add: SetString_def integer_literal_def Let_def scan_result [OF assms])
  next
    case 3
    with Cons show ?thesis
      by (simp add: SetString_def integer_literal_def Let_def scan_result [OF assms])
  qed
qed

lemma has0xPrefix_take: "has0xPrefix s \<longleftrightarrow> take 2 s = ''0x'' \<or> take 2 s = ''0X''"
proof (cases s)
  case Nil
  then show ?thesis by simp
next
  case (Cons c0 r)
  then show ?thesis by (cases r) auto
qed

lemma all_hex_digits: "all_hex s \<longleftrightarrow> list_all (\<lambda>c. digit_of c < 16) s"
  by (induction s) (simp_all add: isHexCharacter_digit)

lemma IsHexAddress_wellformed: "IsHexAddress s \<longleftrightarrow> wellformed_hex_address s"
  by (auto simp: IsHexAddress_def wellformed_hex_address_def strip_0x_def has0xPrefix_take
      isHex_def AddressLength_def all_hex_digits Let_def)

lemma HasPrefix_0x: "HasPrefix s ''0x'' \<longleftrightarrow> take 2 s = ''0x''"
proof (cases s)
  case Nil
  then show ?thesis by (simp add: HasPrefix_def)
next
  case (Cons c0 r)
  then show ?thesis by (cases r) (auto simp: HasPrefix_def)
qed

lemma nibble_cases: "a < 16 \<Longrightarrow> a \<in> {0, 1, 2, 3, 4, 5, 6, 7, 8, 9, 10, 11, 12, 13, 14, 15 :: nat}"
  by simp arith

lemma nibble_or:
  assumes "a < 16" "b < 16"
  shows "push_bit 4 (of_nat a) OR of_nat b = (of_nat (16 * a + b) :: byte)"
  using nibble_cases [OF assms(1)] nibble_cases [OF assms(2)]
  by (elim insertE emptyE; simp)

lemma nibble_le:
  assumes "a < 16"
  shows "\<not> (of_nat a :: byte) > 0x0f"
  using nibble_cases [OF assms] by (elim insertE emptyE; simp)

lemma Hex2Bytes_pairs: "list_all (\<lambda>c. digit_of c < 16) s \<Longrightarrow> Hex2Bytes s = hex_pairs s"
proof (induction s rule: Hex2Bytes.induct)
  case (1 p q rest)
  then show ?case
    by (simp add: reverseHexTable_digit nibble_or nibble_le Let_def)
qed simp_all

lemma length_hex_pairs: "length (hex_pairs s) = length s div 2"
  by (induction s rule: hex_pairs.induct) simp_all

lemma HexToAddress_canonical:
  assumes "wellformed_hex_address tok"
  shows "HexToAddress tok = canonical_address tok"
proof -
  from assms have len: "length (strip_0x tok) = 40"
    and dig: "list_all (\<lambda>c. digit_of c < 16) (strip_0x tok)"
    by (simp_all add: wellformed_hex_address_def)
  have s1: "(if has0xPrefix tok then drop 2 tok else tok) = strip_0x tok"
    by (simp add: strip_0x_def has0xPrefix_take)
  have "FromHex tok = hex_pairs (strip_0x tok)"
    unfolding FromHex_def s1 using len by (simp add: Hex2Bytes_pairs [OF dig])
  moreover have "length (hex_pairs (strip_0x tok)) = 20"
    using len by (simp add: length_hex_pairs)
  ultimately show ?thesis
    by (simp add: HexToAddress_def BytesToAddress_def AddressLength_def canonical_address_def)
qed

lemma length_canonical_address:
  "wellformed_hex_address tok \<Longrightarrow> length (canonical_address tok) = 20"
  by (simp add: canonical_address_def length_hex_pairs wellformed_hex_address_def)

lemma coerce_arg_spec:
  "coerce_arg tok =
     (if wellformed_hex_address tok then Inr (ArgAddress (canonical_address tok))
      else if HasPrefix tok ''0x'' then
        (case integer_literal 16 (drop 2 tok) of
           Some n \<Rightarrow> Inr (ArgBigInt n)
         | None \<Rightarrow> Inl (Fatal (''Failed to parse hex argument: '' @ tok)))
      else
        (case integer_literal 10 tok of
           Some n \<Rightarrow> Inr (ArgBigInt n)
         | None \<Rightarrow> Inr (ArgString tok)))"
  by (simp add: coerce_arg_def IsHexAddress_wellformed HexToAddress_canonical SetString_literal
      split: option.splits)

lemma coerce_loop_acc:
  "coerce_loop ts acc = (case coerce_loop ts [] of Inl e \<Rightarrow> Inl e | Inr vs \<Rightarrow> Inr (acc @ vs))"
proof (induction ts arbitrary: acc)
  case Nil
  then show ?case by simp
next
  case (Cons t ts)
  show ?case
  proof (cases "coerce_arg (TrimSpace t)")
    case (Inl e)
    then show ?thesis by simp
  next
    case (Inr v)
    have "coerce_loop ts (acc @ [v]) =
          (case coerce_loop ts [] of Inl e \<Rightarrow> Inl e | Inr vs \<Rightarrow> Inr ((acc @ [v]) @ vs))"
      by (rule Cons.IH)
    moreover have "coerce_loop ts [v] =
          (case coerce_loop ts [] of Inl e \<Rightarrow> Inl e | Inr vs \<Rightarrow> Inr ([v] @ vs))"
      by (rule Cons.IH)
    ultimately show ?thesis using Inr by (simp split: sum.splits)
  qed
qed

lemma coerce_loop_Inr:
  "coerce_loop ts [] = Inr vs \<longleftrightarrow> map (\<lambda>t. coerce_arg (TrimSpace t)) ts = map Inr vs"
proof (induction ts arbitrary: vs)
  case Nil
  then show ?case by auto
next
  case (Cons t ts)
  show ?case
  proof (cases "coerce_arg (TrimSpace t)")
    case (Inl e)
    then show ?thesis by (cases vs) auto
  next
    case (Inr v)
    show ?thesis
    proof (cases "coerce_loop ts []")
      case (Inl e)
      with Cons.IH have "\<And>ws. map (\<lambda>t. coerce_arg (TrimSpace t)) ts \<noteq> map Inr ws" by simp
      with Inl Inr show ?thesis
        by (cases vs) (simp_all add: coerce_loop_acc [of ts "[v]"])
    next
      case r: (Inr ws)
      then have "map (\<lambda>t. coerce_arg (TrimSpace t)) ts = map Inr ws"
        using Cons.IH [of ws] by simp
      with r Inr show ?thesis
        by (cases vs) (auto simp: coerce_loop_acc [of ts "[v]"] inj_map_eq_map)
    qed
  qed
qed

lemma coerce_loop_Inl:
  "(\<exists>e. coerce_loop ts [] = Inl e) \<longleftrightarrow> list_ex (\<lambda>t. isl (coerce_arg (TrimSpace t))) ts"
proof (induction ts)
  case Nil
  then show ?case by simp
next
  case (Cons t ts)
  show ?case
  proof (cases "coerce_arg (TrimSpace t)")
    case (Inl e)
    then show ?thesis by simp
  next
    case (Inr v)
    with Cons.IH show ?thesis
      by (cases "coerce_loop ts []") (auto simp: coerce_loop_acc [of ts "[v]"])
  qed
qed

lemma Split_nonempty: "Split s sep \<noteq> []"
  by (induction s) (auto split: list.splits)

lemma digit_of_sign:
  "digit_of CHR ''-'' = 36" "digit_of CHR ''+'' = 36" "digit_of CHR ''x'' = 33"
  "digit_of CHR ''X'' = 33"
  by (simp_all add: digit_of_def position_def)

lemma decimal_no_0x:
  assumes "sign = [] \<or> sign = ''-'' \<or> sign = ''+''" and "list_all (\<lambda>c. digit_of c < 10) ds"
  shows "take 2 (sign @ ds) \<noteq> ''0x''" and "take 2 (sign @ ds) \<noteq> ''0X''"
proof -
  have "digit_of c < 10 \<Longrightarrow> c \<noteq> CHR ''x'' \<and> c \<noteq> CHR ''X''" for c
    using digit_of_sign by auto
  with assms show "take 2 (sign @ ds) \<noteq> ''0x''" and "take 2 (sign @ ds) \<noteq> ''0X''"
    by (cases ds; cases "tl ds"; auto)+
qed

lemma prepare_args_fatal:
  "isl (prepare_args s) \<longleftrightarrow>
     s \<noteq> [] \<and> list_ex (\<lambda>t. isl (coerce_arg (TrimSpace t))) (Split s CHR '','')"
proof -
  have "isl (coerce_loop ts []) \<longleftrightarrow> (\<exists>e. coerce_loop ts [] = Inl e)" for ts
    by (cases "coerce_loop ts []") simp_all
  then show ?thesis by (simp add: prepare_args_def coerce_loop_Inl)
qed

lemma coerce_arg_fatal: "isl (coerce_arg tok) \<longleftrightarrow> malformed_hex tok"
  by (simp add: coerce_arg_spec malformed_hex_def split: option.splits)

lemma length_Split: "length (Split s sep) = Suc (count_list s sep)"
  by (induction s) (auto split: list.splits)

lemma prepare_args_tokens:
  assumes "s \<noteq> []"
  shows "prepare_args s = Inr vs \<longleftrightarrow>
         map (\<lambda>t. coerce_arg (TrimSpace t)) (Split s CHR '','') = map Inr vs"
  using assms by (simp add: prepare_args_def coerce_loop_Inr)

section \<open>The formatter's loops and the decimal notation\<close>

lemma pad_zeros_replicate: "pad_zeros s = replicate (18 - length s) CHR ''0'' @ s"
proof (induction s rule: pad_zeros.induct)
  case (1 fracStr)
  show ?case
  proof (cases "length fracStr < 18")
    case True
    then have "pad_zeros fracStr = pad_zeros (''0'' @ fracStr)"
      by (subst pad_zeros.simps) simp
    also have "\<dots> = replicate (18 - length (''0'' @ fracStr)) CHR ''0'' @ ''0'' @ fracStr"
      using True by (rule "1.IH")
    also have "\<dots> = replicate (Suc (17 - length fracStr)) CHR ''0'' @ fracStr"
      by (simp add: replicate_append_same)
    also have "Suc (17 - length fracStr) = 18 - length fracStr"
      using True by simp
    finally show ?thesis .
  next
    case False
    then show ?thesis by (subst pad_zeros.simps) simp
  qed
qed

lemma trim_zeros_strip: "trim_zeros s = Inr (strip_trailing_zeros s)"
proof (induction s rule: rev_induct)
  case Nil
  show ?case by (subst trim_zeros.simps) (simp add: strip_trailing_zeros_def)
next
  case (snoc c s)
  have i: "index (s @ [d]) (int (length s)) = Inr d" for d
    by (simp add: index_def nth_append)
  have t: "slice_to (s @ [d]) (int (length s)) = Inr s" for d
    by (simp add: slice_to_def)
  have "trim_zeros (s @ [c]) = (if c = CHR ''0'' then trim_zeros s else Inr (s @ [c]))"
    by (subst trim_zeros.simps) (auto simp: i t)
  with snoc show ?case by (simp add: strip_trailing_zeros_def)
qed

lemma fixed_digits_zero: "fixed_digits k 0 = replicate k CHR ''0''"
  by (induction k) (simp_all add: digit_char_def replicate_append_same)

lemma nat_String_fixed:
  "n < 10 ^ Suc k \<Longrightarrow>
   replicate (Suc k - length (nat_String n)) CHR ''0'' @ nat_String n = fixed_digits (Suc k) n"
proof (induction k arbitrary: n)
  case 0
  then have "n < 10" by simp
  then show ?case by (subst (1 2) nat_String.simps) simp
next
  case (Suc k)
  show ?case
  proof (cases "n < 10")
    case True
    then show ?thesis
      by (subst (1 2) nat_String.simps) (simp add: fixed_digits_zero replicate_append_same)
  next
    case False
    from Suc.prems have "n div 10 < 10 ^ Suc k" by simp
    then have ih: "replicate (Suc k - length (nat_String (n div 10))) CHR ''0'' @
                   nat_String (n div 10) = fixed_digits (Suc k) (n div 10)"
      by (rule Suc.IH)
    have "nat_String n = nat_String (n div 10) @ [digit_char (n mod 10)]"
      using False by (subst nat_String.simps) simp
    then show ?thesis using ih by simp
  qed
qed

lemma pad_nat_String: "n < 10 ^ 18 \<Longrightarrow> pad_zeros (nat_String n) = fixed_digits 18 n"
  using nat_String_fixed [of n 17] by (simp add: pad_zeros_replicate)

lemma rescale_eq:
  assumes "0 < v"
  shows "rescale v =
     Inr (''           = '' @ big_String (v div 10 ^ 18) @
          (if fraction_digits v = [] then [] else ''.'' @ fraction_digits v) @
          '' (decimal)'' @ nl)"
proof -
  have e: "0 < exp18" by (simp add: exp18_def)
  then have d: "big_Div v exp18 = Inr (v div exp18)" and mo: "big_Mod v exp18 = Inr (v mod exp18)"
    by (simp_all add: big_Div_def big_Mod_def)
  from e have m: "0 \<le> v mod exp18" "v mod exp18 < exp18" by simp_all
  then have "nat (v mod exp18) < 10 ^ 18" by (simp add: nat_less_iff exp18_def)
  then have p: "pad_zeros (nat_String (nat (v mod exp18))) = fixed_digits 18 (nat (v mod exp18))"
    by (rule pad_nat_String)
  have s: "big_String (v mod exp18) = nat_String (nat (v mod exp18))"
    using m by (simp add: big_String_def)
  have "rescale v =
     Inr (''           = '' @ big_String (v div exp18) @
          (if strip_trailing_zeros (fixed_digits 18 (nat (v mod exp18))) = [] then []
           else ''.'' @ strip_trailing_zeros (fixed_digits 18 (nat (v mod exp18)))) @
          '' (decimal)'' @ nl)"
    by (simp add: rescale_def d mo s p trim_zeros_strip)
  then show ?thesis by (simp add: fraction_digits_def exp18_def)
qed

lemma format_result_rescaled:
  assumes "0 < v"
  shows "format_result True Hex (RBigInt v) =
     Inr (big_String v @ '' (big.Int)'' @ nl @
          ''           = '' @ big_String (v div 10 ^ 18) @
          (if fraction_digits v = [] then [] else ''.'' @ fraction_digits v) @
          '' (decimal)'' @ nl)"
  using assms by (simp add: format_result_def big_Cmp_def rescale_eq)

lemma digit_char_cases: "d < 10 \<Longrightarrow> d \<in> {0, 1, 2, 3, 4, 5, 6, 7, 8, 9 :: nat}"
  by simp arith

lemma digit_of_digit_char:
  assumes "d < 10"
  shows "digit_of (digit_char d) = d"
  using digit_char_cases [OF assms]
  by (elim insertE emptyE; simp add: digit_char_def digit_of_def position_def)

lemma numeral_value_snoc: "numeral_value b (ds @ [c]) = numeral_value b ds * b + digit_of c"
  by (simp add: numeral_value_def)

lemma numeral_value_nat_String: "numeral_value 10 (nat_String n) = n"
proof (induction n rule: nat_String.induct)
  case (1 n)
  show ?case
  proof (cases "n < 10")
    case True
    then show ?thesis
      by (subst nat_String.simps) (simp add: numeral_value_def digit_of_digit_char)
  next
    case False
    then have "nat_String n = nat_String (n div 10) @ [digit_char (n mod 10)]"
      by (subst nat_String.simps) simp
    with False "1.IH" show ?thesis
      by (simp add: numeral_value_snoc digit_of_digit_char)
  qed
qed

lemma digits_nat_String: "list_all (\<lambda>c. digit_of c < 10) (nat_String n)"
proof (induction n rule: nat_String.induct)
  case (1 n)
  show ?case
  proof (cases "n < 10")
    case True
    then show ?thesis by (subst nat_String.simps) (simp add: digit_of_digit_char)
  next
    case False
    then have "nat_String n = nat_String (n div 10) @ [digit_char (n mod 10)]"
      by (subst nat_String.simps) simp
    with False "1.IH" show ?thesis by (simp add: digit_of_digit_char)
  qed
qed

lemma nat_String_nonempty: "nat_String n \<noteq> []"
  by (subst nat_String.simps) simp

lemma integer_literal_nat_String: "integer_literal 10 (nat_String n) = Some (int n)"
proof -
  obtain d r where dr: "nat_String n = d # r"
    using nat_String_nonempty [of n] by (cases "nat_String n") auto
  with digits_nat_String [of n] have "digit_of d < 10" by simp
  then have "d \<noteq> CHR ''-''" "d \<noteq> CHR ''+''" using digit_of_sign by auto
  then have "integer_literal 10 (d # r) =
      (if list_all (\<lambda>c. digit_of c < 10) (d # r) then Some (int (numeral_value 10 (d # r))) else None)"
    by (simp add: integer_literal_def Let_def)
  with dr digits_nat_String [of n] numeral_value_nat_String [of n] show ?thesis by simp
qed

lemma length_fixed_digits: "length (fixed_digits k n) = k"
  by (induction k arbitrary: n) simp_all

lemma digits_fixed_digits: "list_all (\<lambda>c. digit_of c < 10) (fixed_digits k n)"
  by (induction k arbitrary: n) (simp_all add: digit_of_digit_char)

lemma numeral_value_fixed_digits: "numeral_value 10 (fixed_digits k n) = n mod 10 ^ k"
proof (induction k arbitrary: n)
  case 0
  show ?case by (simp add: numeral_value_def)
next
  case (Suc k)
  have "numeral_value 10 (fixed_digits (Suc k) n) = (n div 10 mod 10 ^ k) * 10 + n mod 10"
    by (simp add: numeral_value_snoc Suc.IH digit_of_digit_char)
  also have "\<dots> = n mod 10 ^ Suc k"
    by (simp add: mod_mult2_eq)
  finally show ?case .
qed

lemma strip_trailing_zeros_snoc:
  "strip_trailing_zeros (s @ [c]) = (if c = CHR ''0'' then strip_trailing_zeros s else s @ [c])"
  by (simp add: strip_trailing_zeros_def)

lemma length_strip_trailing_zeros: "length (strip_trailing_zeros s) \<le> length s"
  by (simp add: strip_trailing_zeros_def length_dropWhile_le [of _ "rev s", simplified])

lemma strip_trailing_zeros_pad:
  "strip_trailing_zeros s @ replicate (length s - length (strip_trailing_zeros s)) CHR ''0'' = s"
proof (induction s rule: rev_induct)
  case Nil
  show ?case by (simp add: strip_trailing_zeros_def)
next
  case (snoc c s)
  show ?case
  proof (cases "c = CHR ''0''")
    case True
    have "Suc (length s) - length (strip_trailing_zeros s) =
          Suc (length s - length (strip_trailing_zeros s))"
      using length_strip_trailing_zeros [of s] by simp
    moreover have "strip_trailing_zeros s @
          replicate (Suc (length s - length (strip_trailing_zeros s))) CHR ''0'' =
          (strip_trailing_zeros s @
           replicate (length s - length (strip_trailing_zeros s)) CHR ''0'') @ ''0''"
      by (simp add: replicate_append_same)
    ultimately show ?thesis
      using True by (simp add: strip_trailing_zeros_snoc snoc del: replicate_Suc append_assoc)
  next
    case False
    then show ?thesis by (simp add: strip_trailing_zeros_snoc)
  qed
qed

lemma digits_strip_trailing_zeros:
  "list_all (\<lambda>c. digit_of c < 10) s \<Longrightarrow> list_all (\<lambda>c. digit_of c < 10) (strip_trailing_zeros s)"
  by (induction s rule: rev_induct) (simp_all add: strip_trailing_zeros_snoc strip_trailing_zeros_def)

lemma fraction_digits_facts:
  assumes "0 \<le> fracPart" "fracPart < 10 ^ 18"
  shows "list_all (\<lambda>c. digit_of c < 10) (strip_trailing_zeros (fixed_digits 18 (nat fracPart)))"
    and "length (strip_trailing_zeros (fixed_digits 18 (nat fracPart))) \<le> 18"
    and "int (numeral_value 10 (strip_trailing_zeros (fixed_digits 18 (nat fracPart)) @
           replicate (18 - length (strip_trailing_zeros (fixed_digits 18 (nat fracPart)))) CHR ''0''))
         = fracPart"
proof -
  let ?s = "fixed_digits 18 (nat fracPart)"
  show "list_all (\<lambda>c. digit_of c < 10) (strip_trailing_zeros ?s)"
    by (rule digits_strip_trailing_zeros) (rule digits_fixed_digits)
  show "length (strip_trailing_zeros ?s) \<le> 18"
    using length_strip_trailing_zeros [of ?s] by (simp add: length_fixed_digits)
  have "strip_trailing_zeros ?s @ replicate (18 - length (strip_trailing_zeros ?s)) CHR ''0'' = ?s"
    using strip_trailing_zeros_pad [of ?s] by (simp add: length_fixed_digits)
  moreover have "nat fracPart < 10 ^ 18" using assms by (simp add: nat_less_iff)
  ultimately show "int (numeral_value 10 (strip_trailing_zeros ?s @
           replicate (18 - length (strip_trailing_zeros ?s)) CHR ''0'')) = fracPart"
    using assms(1) by (simp add: numeral_value_fixed_digits)
qed

lemma no_rescale:
  assumes "\<not> (convert \<and> 0 < v)"
  shows "format_result convert Hex (RBigInt v) = Inr (big_String v @ '' (big.Int)'' @ nl)"
  using assms by (auto simp: format_result_def big_Cmp_def)

lemma format_result_total: "\<exists>body. format_result convert Hex result = Inr body"
proof (cases result)
  case (RBigInt v)
  show ?thesis
  proof (cases "convert \<and> 0 < v")
    case True
    then show ?thesis using format_result_rescaled [of v Hex] RBigInt by simp
  next
    case False
    then show ?thesis using no_rescale [of convert v Hex] RBigInt by simp
  qed
qed (simp_all add: format_result_def)

lemma print_results_eq:
  "print_results convert Hex i results out =
     Inr (out @ concat (map (\<lambda>(k, r). ''Result['' @ fmt_d k @ '']: '' @
                                      projr (format_result convert Hex r))
                            (zip [i..<i + length results] results)))"
proof (induction results arbitrary: i out)
  case Nil
  show ?case by simp
next
  case (Cons r rs)
  obtain body where b: "format_result convert Hex r = Inr body"
    using format_result_total by blast
  have "[i..<i + length (r # rs)] = i # [Suc i..<Suc i + length rs]"
    by (subst upt_rec) simp
  then have z: "zip [i..<i + length (r # rs)] (r # rs) = (i, r) # zip [Suc i..<Suc i + length rs] rs"
    by (simp only: zip_Cons_Cons)
  show ?case
    unfolding z using b by (simp add: Cons.IH)
qed

section \<open>The ABI fragments\<close>

lemma fallback_is_generic: "GenericFallbackABI = fallback_fragment ''FUNCTION_PLACEHOLDER''"
  by (simp add: GenericFallbackABI_def fallback_fragment_def)

lemma Replace1_fallback:
  "Replace1 GenericFallbackABI ''FUNCTION_PLACEHOLDER'' name = fallback_fragment name"
  by (simp add: GenericFallbackABI_def fallback_fragment_def nl_def tabs_def eval_nat_numeral
      HasPrefix_def)

lemma predefined_abi_generic:
  assumes "contractTypePtr f = ''generic'' \<or> contractTypePtr f = []"
  shows "predefined_abi f = fallback_fragment (functionNamePtr f)"
  using assms by (auto simp: predefined_abi_def getContractABI_def Replace1_fallback)

lemma predefined_abi_other:
  assumes "contractTypePtr f \<noteq> ''erc20''" "contractTypePtr f \<noteq> ''storage''"
    "contractTypePtr f \<noteq> ''generic''" "contractTypePtr f \<noteq> []"
  shows "predefined_abi f = fallback_fragment ''FUNCTION_PLACEHOLDER''"
  using assms by (simp add: predefined_abi_def getContractABI_def fallback_is_generic)

section \<open>The argument coercer\<close>

text \<open>
  C1. Every trimmed token is coerced in this fixed order: a well-formed 20-byte hex
  address (either case, with or without the \<^verbatim>\<open>0x\<close> prefix) becomes the address in
  canonical form, 20 bytes; otherwise a token that starts with \<^verbatim>\<open>0x\<close> is read as a
  base-16 integer; otherwise a token that is a base-10 integer becomes that integer;
  otherwise the token is passed verbatim as a string.
\<close>

theorem coercion_priority:
  "coerce_arg tok =
     (if wellformed_hex_address tok then Inr (ArgAddress (canonical_address tok))
      else if HasPrefix tok ''0x'' then
        (case integer_literal 16 (drop 2 tok) of
           Some n \<Rightarrow> Inr (ArgBigInt n)
         | None \<Rightarrow> Inl (Fatal (''Failed to parse hex argument: '' @ tok)))
      else
        (case integer_literal 10 tok of
           Some n \<Rightarrow> Inr (ArgBigInt n)
         | None \<Rightarrow> Inr (ArgString tok)))
   \<and> (wellformed_hex_address tok \<longrightarrow> length (canonical_address tok) = 20)"
  by (simp add: coerce_arg_spec length_canonical_address)

theorem coercion_priority_witness:
  "coerce_arg ''0x3EF98543F9772DC959255545B717a61D408e7b61'' =
     Inr (ArgAddress [0x3E, 0xF9, 0x85, 0x43, 0xF9, 0x77, 0x2D, 0xC9, 0x59, 0x25,
                      0x55, 0x45, 0xB7, 0x17, 0xA6, 0x1D, 0x40, 0x8E, 0x7B, 0x61])
   \<and> coerce_arg ''0x1f'' = Inr (ArgBigInt 31)
   \<and> coerce_arg ''42'' = Inr (ArgBigInt 42)
   \<and> coerce_arg ''hello'' = Inr (ArgString ''hello'')"
proof -
  have a: "wellformed_hex_address ''0x3EF98543F9772DC959255545B717a61D408e7b61''"
    by code_simp
  have b: "canonical_address ''0x3EF98543F9772DC959255545B717a61D408e7b61'' =
     [0x3E, 0xF9, 0x85, 0x43, 0xF9, 0x77, 0x2D, 0xC9, 0x59, 0x25,
      0x55, 0x45, 0xB7, 0x17, 0xA6, 0x1D, 0x40, 0x8E, 0x7B, 0x61]"
    by code_simp
  have c: "\<not> wellformed_hex_address ''0x1f''" "HasPrefix ''0x1f'' ''0x''"
    "integer_literal 16 (drop 2 ''0x1f'') = Some 31"
    by code_simp+
  have d: "\<not> wellformed_hex_address ''42''" "\<not> HasPrefix ''42'' ''0x''"
    "integer_literal 10 ''42'' = Some 42"
    by code_simp+
  have e: "\<not> wellformed_hex_address ''hello''" "\<not> HasPrefix ''hello'' ''0x''"
    "integer_literal 10 ''hello'' = None"
    by code_simp+
  show ?thesis
    using coercion_priority [of "''0x3EF98543F9772DC959255545B717a61D408e7b61''"]
      coercion_priority [of "''0x1f''"] coercion_priority [of "''42''"]
      coercion_priority [of "''hello''"]
    by (simp only: a b c d e if_True if_False option.case simp_thms)
qed

text \<open>
  C4. A trimmed token that starts with \<^verbatim>\<open>0x\<close> and is not a well-formed address
  is read, after the prefix, as a base-16 integer and coerced to that integer; when it
  is none, the process ends with a diagnostic, and the token is never passed as a string.
\<close>

theorem hex_prefix_integer_or_fatal:
  assumes "HasPrefix tok ''0x''" and "\<not> wellformed_hex_address tok"
  shows "coerce_arg tok =
           (case integer_literal 16 (drop 2 tok) of
              Some n \<Rightarrow> Inr (ArgBigInt n)
            | None \<Rightarrow> Inl (Fatal (''Failed to parse hex argument: '' @ tok)))
         \<and> (\<forall>s. coerce_arg tok \<noteq> Inr (ArgString s))"
  using assms by (simp add: coerce_arg_spec split: option.splits)

theorem hex_prefix_integer_or_fatal_witness:
  "coerce_arg ''0x1f'' = Inr (ArgBigInt 31) \<and>
   coerce_arg ''0x-1f'' = Inr (ArgBigInt (- 31)) \<and>
   coerce_arg ''0xzz'' = Inl (Fatal ''Failed to parse hex argument: 0xzz'') \<and>
   coerce_arg ''0x'' = Inl (Fatal ''Failed to parse hex argument: 0x'')"
proof -
  have p: "HasPrefix ''0x1f'' ''0x''" "HasPrefix ''0x-1f'' ''0x''" "HasPrefix ''0xzz'' ''0x''"
    "HasPrefix ''0x'' ''0x''"
    by code_simp+
  have w: "\<not> wellformed_hex_address ''0x1f''" "\<not> wellformed_hex_address ''0x-1f''"
    "\<not> wellformed_hex_address ''0xzz''" "\<not> wellformed_hex_address ''0x''"
    by code_simp+
  have v: "integer_literal 16 (drop 2 ''0x1f'') = Some 31"
    "integer_literal 16 (drop 2 ''0x-1f'') = Some (- 31)"
    "integer_literal 16 (drop 2 ''0xzz'') = None"
    "integer_literal 16 (drop 2 ''0x'') = None"
    by code_simp+
  show ?thesis
    using hex_prefix_integer_or_fatal [OF p(1) w(1)] hex_prefix_integer_or_fatal [OF p(2) w(2)]
      hex_prefix_integer_or_fatal [OF p(3) w(3)] hex_prefix_integer_or_fatal [OF p(4) w(4)]
    by (simp only: v option.case append.simps simp_thms)
qed

text \<open>
  C9. Coercion ends the process only for a token that starts with \<^verbatim>\<open>0x\<close> and is
  neither a well-formed address nor a base-16 integer after the prefix; every token
  that does not start with \<^verbatim>\<open>0x\<close> is coerced to an address, an integer or a
  string. The whole argument string ends the process exactly when one of its trimmed
  tokens has that shape.
\<close>

theorem only_malformed_hex_is_fatal:
  "(isl (coerce_arg tok) \<longleftrightarrow> malformed_hex tok) \<and>
   (\<not> HasPrefix tok ''0x'' \<longrightarrow> (\<exists>a. coerce_arg tok = Inr a)) \<and>
   (isl (prepare_args s) \<longleftrightarrow>
      s \<noteq> [] \<and> list_ex (\<lambda>t. malformed_hex (TrimSpace t)) (Split s CHR '',''))"
proof (intro conjI impI)
  show "isl (coerce_arg tok) \<longleftrightarrow> malformed_hex tok" by (rule coerce_arg_fatal)
next
  assume "\<not> HasPrefix tok ''0x''"
  then have "\<not> malformed_hex tok" by (simp add: malformed_hex_def)
  then have "\<not> isl (coerce_arg tok)" by (simp add: coerce_arg_fatal)
  then show "\<exists>a. coerce_arg tok = Inr a" by (cases "coerce_arg tok") simp_all
next
  show "isl (prepare_args s) \<longleftrightarrow>
      s \<noteq> [] \<and> list_ex (\<lambda>t. malformed_hex (TrimSpace t)) (Split s CHR '','')"
    by (simp add: prepare_args_fatal coerce_arg_fatal)
qed

theorem only_malformed_hex_is_fatal_witness:
  "isl (coerce_arg ''0xzz'') \<and> (\<exists>a. coerce_arg ''-42'' = Inr a) \<and>
   isl (prepare_args ''1, 0xzz'') \<and> \<not> isl (prepare_args ''1, 0xff, abc'')"
proof -
  have a: "malformed_hex ''0xzz''" by code_simp
  have b: "\<not> HasPrefix ''-42'' ''0x''" by code_simp
  have c: "''1, 0xzz'' \<noteq> [] \<and>
      list_ex (\<lambda>t. malformed_hex (TrimSpace t)) (Split ''1, 0xzz'' CHR '','')"
    by code_simp
  have d: "\<not> (''1, 0xff, abc'' \<noteq> [] \<and>
      list_ex (\<lambda>t. malformed_hex (TrimSpace t)) (Split ''1, 0xff, abc'' CHR '',''))"
    by code_simp
  show ?thesis
    using only_malformed_hex_is_fatal [of "''0xzz''" "''1, 0xzz''"]
      only_malformed_hex_is_fatal [of "''-42''" "''1, 0xff, abc''"] a b c d
    by blast
qed

text \<open>
  C6, as amended. The empty argument string gives no argument. For any other argument
  string, when no token ends the process, the arguments are one for every comma-split
  token, empty tokens included (one more than there are commas), in the order of the
  tokens, each the coercion of its trimmed token.
\<close>

theorem one_argument_per_token:
  "prepare_args [] = Inr [] \<and>
   (s \<noteq> [] \<and> prepare_args s = Inr vs \<longrightarrow>
      length vs = Suc (count_list s CHR '','') \<and>
      length vs = length (Split s CHR '','') \<and>
      (\<forall>i < length vs. coerce_arg (TrimSpace (Split s CHR '','' ! i)) = Inr (vs ! i)))"
proof (intro conjI impI allI)
  show "prepare_args [] = Inr []" by (simp add: prepare_args_def)
next
  assume a: "s \<noteq> [] \<and> prepare_args s = Inr vs"
  then have ne: "s \<noteq> []" and pa: "prepare_args s = Inr vs" by simp_all
  have m: "map (\<lambda>t. coerce_arg (TrimSpace t)) (Split s CHR '','') = map Inr vs"
    using prepare_args_tokens [OF ne, of vs] pa by blast
  then have "length (map (\<lambda>t. coerce_arg (TrimSpace t)) (Split s CHR '','')) = length (map Inr vs)"
    by simp
  then show l: "length vs = length (Split s CHR '','')" by simp
  then show "length vs = Suc (count_list s CHR '','')" by (simp add: length_Split)
  fix i
  assume "i < length vs"
  with l have "coerce_arg (TrimSpace (Split s CHR '','' ! i)) =
               map (\<lambda>t. coerce_arg (TrimSpace t)) (Split s CHR '','') ! i"
    by simp
  also have "\<dots> = map Inr vs ! i" by (simp only: m)
  also from \<open>i < length vs\<close> have "\<dots> = Inr (vs ! i)" by simp
  finally show "coerce_arg (TrimSpace (Split s CHR '','' ! i)) = Inr (vs ! i)" .
qed

theorem one_argument_per_token_witness:
  "prepare_args [] = Inr [] \<and>
   length [ArgString ''a'', ArgString [], ArgBigInt 7] = Suc (count_list ''a,, 7'' CHR '','') \<and>
   coerce_arg (TrimSpace (Split ''a,, 7'' CHR '','' ! 2)) = Inr (ArgBigInt 7)"
proof -
  have e: "''a,, 7'' \<noteq> [] \<and>
    prepare_args ''a,, 7'' = Inr [ArgString ''a'', ArgString [], ArgBigInt 7]"
    by code_simp
  have "(2::nat) < length [ArgString ''a'', ArgString [], ArgBigInt 7]" by simp
  with one_argument_per_token [of "''a,, 7''" "[ArgString ''a'', ArgString [], ArgBigInt 7]"] e
  show ?thesis by fastforce
qed

text \<open>C6 as stated fails: the empty token between two commas is an argument, the
  empty string, so three arguments come from two non-empty tokens.\<close>

theorem empty_token_counterexample:
  "prepare_args ''a,,b'' = Inr [ArgString ''a'', ArgString [], ArgString ''b''] \<and>
   nonempty_tokens ''a,,b'' = [''a'', ''b'']"
  by code_simp

text \<open>
  C10, as amended. A token made of an optional sign and one or more decimal digits is a
  base-10 integer for Int.SetString, and unless it is 40 digits without a sign (a
  well-formed hex address, which the first step takes) it is coerced to that integer; so
  is every token with a sign before its digits.
\<close>

theorem signed_decimal_is_integer:
  assumes "sign = [] \<or> sign = ''-'' \<or> sign = ''+''"
    and "ds \<noteq> []"
    and "list_all (\<lambda>c. digit_of c < 10) ds"
    and "sign \<noteq> [] \<or> length ds \<noteq> 40"
  shows "SetString (sign @ ds) 10 =
           Some (if sign = ''-'' then - int (numeral_value 10 ds) else int (numeral_value 10 ds))
         \<and> coerce_arg (sign @ ds) =
           Inr (ArgBigInt (if sign = ''-'' then - int (numeral_value 10 ds)
                           else int (numeral_value 10 ds)))"
proof -
  from assms(2) obtain d r where ds: "ds = d # r" by (cases ds) auto
  with assms(3) have d: "d \<noteq> CHR ''-''" "d \<noteq> CHR ''+''"
    using digit_of_sign by auto
  have lit: "integer_literal 10 (sign @ ds) =
      Some (if sign = ''-'' then - int (numeral_value 10 ds) else int (numeral_value 10 ds))"
    using assms(1,3) ds d by (auto simp: integer_literal_def)
  have strip: "strip_0x (sign @ ds) = sign @ ds"
    using decimal_no_0x [OF assms(1,3)] by (simp add: strip_0x_def)
  have nw: "\<not> wellformed_hex_address (sign @ ds)"
  proof (cases "sign = []")
    case True
    with assms(4) strip show ?thesis by (simp add: wellformed_hex_address_def)
  next
    case False
    with assms(1) have "\<not> list_all (\<lambda>c. digit_of c < 16) (sign @ ds)"
      using digit_of_sign by auto
    then show ?thesis by (simp add: wellformed_hex_address_def strip)
  qed
  have np: "\<not> HasPrefix (sign @ ds) ''0x''"
    using decimal_no_0x(1) [OF assms(1,3)] by (simp add: HasPrefix_0x)
  show ?thesis
    using lit nw np by (simp add: coerce_arg_spec SetString_literal)
qed

theorem signed_decimal_is_integer_witness:
  "coerce_arg ''-42'' = Inr (ArgBigInt (- 42)) \<and> SetString ''+7'' 10 = Some 7"
proof -
  have a: "''-'' = [] \<or> ''-'' = ''-'' \<or> ''-'' = ''+''" by simp
  have b: "''42'' \<noteq> []" by simp
  have c: "list_all (\<lambda>c. digit_of c < 10) ''42''" by code_simp
  have d: "''-'' \<noteq> [] \<or> length ''42'' \<noteq> 40" by simp
  have v: "numeral_value 10 ''42'' = 42" by code_simp
  have a': "''+'' = [] \<or> ''+'' = ''-'' \<or> ''+'' = ''+''" by simp
  have b': "''7'' \<noteq> []" by simp
  have c': "list_all (\<lambda>c. digit_of c < 10) ''7''" by code_simp
  have d': "''+'' \<noteq> [] \<or> length ''7'' \<noteq> 40" by simp
  have v': "numeral_value 10 ''7'' = 7" by code_simp
  show ?thesis
    using signed_decimal_is_integer [OF a b c d] signed_decimal_is_integer [OF a' b' c' d']
    by (simp add: v v')
qed

text \<open>C10 as stated fails: forty decimal digits are an address, not an integer.\<close>

theorem forty_digits_counterexample:
  "coerce_arg ''1111111111111111111111111111111111111111'' =
     Inr (ArgAddress [0x11, 0x11, 0x11, 0x11, 0x11, 0x11, 0x11, 0x11, 0x11, 0x11,
                      0x11, 0x11, 0x11, 0x11, 0x11, 0x11, 0x11, 0x11, 0x11, 0x11])"
  by code_simp

section \<open>The result formatter\<close>

text \<open>
  C2. With the rescale flag set, an integer result \<open>v > 0\<close> is printed as its decimal
  string and a second line: the integer part \<open>v div 10^18\<close> (floor), then, unless it is
  empty, a decimal point and the fractional part, which is \<open>v mod 10^18\<close> written with
  exactly 18 digits (leading zeros) and then without its trailing zeros. For
  \<open>v = 1500000000000000000\<close> the second line is \<^verbatim>\<open>= 1.5 (decimal)\<close>.
\<close>

theorem rescale_line:
  assumes "0 < v"
  shows "format_result True Hex (RBigInt v) =
     Inr (big_String v @ '' (big.Int)'' @ nl @
          ''           = '' @ big_String (v div 10 ^ 18) @
          (if fraction_digits v = [] then [] else ''.'' @ fraction_digits v) @
          '' (decimal)'' @ nl)"
  using assms by (rule format_result_rescaled)

theorem rescale_line_witness:
  "format_result True fmt_x (RBigInt 1500000000000000000) =
     Inr (''1500000000000000000 (big.Int)'' @ nl @ ''           = 1.5 (decimal)'' @ nl)"
proof -
  have p: "(0::int) < 1500000000000000000" by simp
  have n: "nat (1500000000000000000 mod 10 ^ 18) = 500000000000000000" by simp
  have "fixed_digits 18 500000000000000000 = pad_zeros (nat_String 500000000000000000)"
    by (simp add: pad_nat_String)
  also have "\<dots> = ''500000000000000000''"
    by (simp add: nat_String.simps pad_zeros.simps digit_char_def)
  finally have d: "fixed_digits 18 500000000000000000 = ''500000000000000000''" .
  have t: "strip_trailing_zeros ''500000000000000000'' = ''5''" by code_simp
  have f: "fraction_digits 1500000000000000000 = ''5''"
    unfolding fraction_digits_def n d t ..
  have i: "big_String (1500000000000000000 div 10 ^ 18) = ''1''"
    by (simp add: big_String_def nat_String.simps digit_char_def)
  have b: "big_String 1500000000000000000 = ''1500000000000000000''"
    by (simp add: big_String_def nat_String.simps digit_char_def)
  show ?thesis
    using rescale_line [OF p, of fmt_x] unfolding f i b by simp
qed

text \<open>
  C3. For \<open>v = intPart * 10^18 + fracPart\<close> with \<open>0 \<le> fracPart < 10^18\<close>: when \<open>v > 0\<close>
  the rescale line consists of digit strings \<open>I\<close> and \<open>F\<close> (\<open>F\<close> after a decimal
  point, absent when empty) such that \<open>I\<close> reads as \<open>intPart\<close> and \<open>F\<close>, filled up
  with zeros on the right to 18 digits, reads as \<open>fracPart\<close>; when \<open>v \<le> 0\<close> only the
  first line is printed, whatever the flag.
\<close>

theorem rescale_round_trip:
  assumes "v = intPart * 10 ^ 18 + fracPart" and "0 \<le> fracPart" and "fracPart < 10 ^ 18"
  shows "if 0 < v then
           (\<exists>I F. format_result True Hex (RBigInt v) =
                     Inr (big_String v @ '' (big.Int)'' @ nl @
                          ''           = '' @ I @ (if F = [] then [] else ''.'' @ F) @
                          '' (decimal)'' @ nl) \<and>
                   list_all (\<lambda>c. digit_of c < 10) I \<and>
                   integer_literal 10 I = Some intPart \<and>
                   list_all (\<lambda>c. digit_of c < 10) F \<and>
                   length F \<le> 18 \<and>
                   int (numeral_value 10 (F @ replicate (18 - length F) CHR ''0'')) = fracPart)
         else format_result convert Hex (RBigInt v) = Inr (big_String v @ '' (big.Int)'' @ nl)"
proof (cases "0 < v")
  case False
  then show ?thesis by (simp add: no_rescale)
next
  case True
  from assms have dv: "v div 10 ^ 18 = intPart" and md: "v mod 10 ^ 18 = fracPart"
    by simp_all
  have "0 \<le> intPart"
  proof (rule ccontr)
    assume "\<not> 0 \<le> intPart"
    then have "intPart \<le> - 1" by simp
    then have "intPart * 10 ^ 18 \<le> - 1 * 10 ^ 18" by (rule mult_right_mono) simp
    with assms True show False by simp
  qed
  then have I: "big_String intPart = nat_String (nat intPart)" by (simp add: big_String_def)
  let ?I = "nat_String (nat intPart)"
  let ?F = "strip_trailing_zeros (fixed_digits 18 (nat fracPart))"
  have 1: "format_result True Hex (RBigInt v) =
          Inr (big_String v @ '' (big.Int)'' @ nl @
               ''           = '' @ ?I @ (if ?F = [] then [] else ''.'' @ ?F) @
               '' (decimal)'' @ nl)"
    using format_result_rescaled [OF True, of Hex] by (simp only: dv fraction_digits_def md I)
  have 2: "list_all (\<lambda>c. digit_of c < 10) ?I" by (rule digits_nat_String)
  have 3: "integer_literal 10 ?I = Some intPart"
    using \<open>0 \<le> intPart\<close> by (simp add: integer_literal_nat_String)
  note 4 = fraction_digits_facts [OF assms(2,3)]
  have "\<exists>I F. format_result True Hex (RBigInt v) =
                     Inr (big_String v @ '' (big.Int)'' @ nl @
                          ''           = '' @ I @ (if F = [] then [] else ''.'' @ F) @
                          '' (decimal)'' @ nl) \<and>
                   list_all (\<lambda>c. digit_of c < 10) I \<and>
                   integer_literal 10 I = Some intPart \<and>
                   list_all (\<lambda>c. digit_of c < 10) F \<and>
                   length F \<le> 18 \<and>
                   int (numeral_value 10 (F @ replicate (18 - length F) CHR ''0'')) = fracPart"
    by (intro exI [of _ ?I] exI [of _ ?F] conjI) (rule 1 2 3 4)+
  with True show ?thesis by (simp only: if_True)
qed

theorem rescale_round_trip_witness:
  "(\<exists>I F. format_result True fmt_x (RBigInt 1500000000000000000) =
            Inr (big_String 1500000000000000000 @ '' (big.Int)'' @ nl @
                 ''           = '' @ I @ (if F = [] then [] else ''.'' @ F) @
                 '' (decimal)'' @ nl) \<and>
          integer_literal 10 I = Some 1 \<and>
          int (numeral_value 10 (F @ replicate (18 - length F) CHR ''0'')) = 500000000000000000) \<and>
   format_result True fmt_x (RBigInt 0) = Inr (big_String 0 @ '' (big.Int)'' @ nl)"
proof -
  have a: "(1500000000000000000::int) = 1 * 10 ^ 18 + 500000000000000000" by simp
  have b: "(0::int) \<le> 500000000000000000" "(500000000000000000::int) < 10 ^ 18" by simp_all
  have p: "(0::int) < 1500000000000000000" by simp
  have c: "(0::int) = 0 * 10 ^ 18 + 0" by simp
  have d: "(0::int) \<le> 0" "(0::int) < 10 ^ 18" by simp_all
  have n: "\<not> (0::int) < 0" by simp
  from rescale_round_trip [where Hex = fmt_x and convert = True, OF a b]
  have "\<exists>I F. format_result True fmt_x (RBigInt 1500000000000000000) =
            Inr (big_String 1500000000000000000 @ '' (big.Int)'' @ nl @
                 ''           = '' @ I @ (if F = [] then [] else ''.'' @ F) @
                 '' (decimal)'' @ nl) \<and>
          integer_literal 10 I = Some 1 \<and>
          int (numeral_value 10 (F @ replicate (18 - length F) CHR ''0'')) = 500000000000000000"
    unfolding if_P [OF p] by blast
  moreover from rescale_round_trip [where Hex = fmt_x and convert = True, OF c d]
  have "format_result True fmt_x (RBigInt 0) = Inr (big_String 0 @ '' (big.Int)'' @ nl)"
    unfolding if_not_P [OF n] .
  ultimately show ?thesis by (rule conjI)
qed

text \<open>
  C7. For every sequence of decoded values the formatter raises no panic and writes one
  entry for each value, in the order of the values, each entry the text
  \<^verbatim>\<open>Result[i]: \<close> with the value's position followed by the value's rendering;
  a value of an unrecognised type is rendered as its generic representation and its
  type name.
\<close>

theorem formatting_always_succeeds:
  "(\<exists>entries. print_results convert Hex 0 results [] = Inr (concat entries) \<and>
       length entries = length results \<and>
       (\<forall>i < length results.
          \<exists>body. format_result convert Hex (results ! i) = Inr body \<and>
                 entries ! i = ''Result['' @ fmt_d i @ '']: '' @ body)) \<and>
   format_result convert Hex (ROther v t) = Inr (v @ '' (type: '' @ t @ '')'' @ nl)"
proof
  let ?entry = "\<lambda>(k, r). ''Result['' @ fmt_d k @ '']: '' @ projr (format_result convert Hex r)"
  let ?entries = "map ?entry (zip [0..<0 + length results] results)"
  have 1: "print_results convert Hex 0 results [] = Inr (concat ?entries)"
    by (simp add: print_results_eq)
  have 2: "length ?entries = length results" by simp
  have 3: "\<exists>body. format_result convert Hex (results ! i) = Inr body \<and>
                 ?entries ! i = ''Result['' @ fmt_d i @ '']: '' @ body"
    if "i < length results" for i
  proof -
    obtain body where b: "format_result convert Hex (results ! i) = Inr body"
      using format_result_total by blast
    with that have "?entries ! i = ''Result['' @ fmt_d i @ '']: '' @ body" by simp
    with b show ?thesis by blast
  qed
  show "\<exists>entries. print_results convert Hex 0 results [] = Inr (concat entries) \<and>
       length entries = length results \<and>
       (\<forall>i < length results.
          \<exists>body. format_result convert Hex (results ! i) = Inr body \<and>
                 entries ! i = ''Result['' @ fmt_d i @ '']: '' @ body)"
    using 1 2 3 by blast
next
  show "format_result convert Hex (ROther v t) = Inr (v @ '' (type: '' @ t @ '')'' @ nl)"
    by (simp add: format_result_def)
qed

theorem formatting_always_succeeds_witness:
  "\<exists>entries. print_results False fmt_x 0 [RBool True, ROther ''[1 2]'' ''[]uint8''] [] =
        Inr (concat entries) \<and>
      length entries = 2 \<and>
      entries ! 1 = ''Result[1]: [1 2] (type: []uint8)'' @ nl"
proof -
  let ?rs = "[RBool True, ROther ''[1 2]'' ''[]uint8'']"
  from formatting_always_succeeds [of False fmt_x ?rs "[]" "[]"]
  obtain entries where e: "print_results False fmt_x 0 ?rs [] = Inr (concat entries)"
    "length entries = length ?rs"
    "\<forall>i < length ?rs. \<exists>body. format_result False fmt_x (?rs ! i) = Inr body \<and>
        entries ! i = ''Result['' @ fmt_d i @ '']: '' @ body"
    by blast
  have "(1::nat) < length ?rs" by simp
  with e(3) obtain body where b: "format_result False fmt_x (?rs ! 1) = Inr body"
    "entries ! 1 = ''Result['' @ fmt_d 1 @ '']: '' @ body"
    by blast
  from b(1) have "body = ''[1 2] (type: []uint8)'' @ nl" by (simp add: format_result_def)
  moreover have "fmt_d 1 = ''1''" by (simp add: fmt_d_def nat_String.simps digit_char_def)
  ultimately have "entries ! 1 = ''Result[1]: [1 2] (type: []uint8)'' @ nl"
    using b(2) by simp
  with e(1,2) show ?thesis by auto
qed

section \<open>The ABI selection and the validation of the flags\<close>

text \<open>
  C5. Without an ABI file, a contract type other than \<^verbatim>\<open>erc20\<close> and
  \<^verbatim>\<open>storage\<close> is meant to give the fallback fragment with the requested function
  name in the place of the placeholder. main.go does so for \<^verbatim>\<open>generic\<close> and the
  empty type only: for the type \<^verbatim>\<open>token\<close> and the function \<^verbatim>\<open>foo\<close> the
  fragment still names \<^verbatim>\<open>FUNCTION_PLACEHOLDER\<close>.
\<close>

theorem unknown_type_keeps_placeholder:
  "get_abi ReadFile
     \<lparr>contractAddrPtr = ''0x3EF98543F9772DC959255545B717a61D408e7b61'',
      functionNamePtr = ''foo'', rpcURLPtr = ''http://localhost:8545'',
      contractTypePtr = ''token'', abiFilePtr = [], argsPtr = [],
      convertPtr = False, helpPtr = False\<rparr>
   = Inr (fallback_fragment ''FUNCTION_PLACEHOLDER'') \<and>
   fallback_fragment ''FUNCTION_PLACEHOLDER'' \<noteq> fallback_fragment ''foo''"
  by (simp add: get_abi_def predefined_abi_other) (simp add: fallback_fragment_def)




end
